theory Spec2Isabelle
  imports Complex_Main
begin

section \<open>Python values shared by both modules\<close>

text \<open>
  Exceptions are values. \<open>IOError\<close>, \<open>AttributeError\<close> and \<open>ValueError\<close> carry their
  message (for \<open>AttributeError\<close>: the name of the attribute that was not found);
  \<open>Raised\<close> stands for any exception thrown by a collaborator (transport, packet
  codec, sub-collection, notification hook).
\<close>

datatype exn =
    IOError string
  | AttributeError string
  | ValueError string
  | Raised string

text \<open>
  The sources are Python 2, where what a transport reads and writes is a \<open>str\<close>: a
  sequence of 8-bit characters.
\<close>

type_synonym bytes = string

section \<open>thorlabs/\_abstract.py: ThorLabsInstrument\<close>

subsection \<open>Collaborators\<close>

text \<open>
  The packet codec (\<open>instruments.thorlabs._packets\<close>) is not part of the sources at
  hand, so it is a parameter: \<open>pack\<close> serialises a packet, \<open>unpack\<close> deserialises
  bytes (and may raise), \<open>message_id\<close> reads the field \<open>_message_id\<close>, and
  \<open>format_id\<close> is what \<open>'{}'.format\<close> prints for an identifier.
\<close>

record ('p, 'i) packets =
  pack :: "'p \<Rightarrow> bytes"
  unpack :: "bytes \<Rightarrow> exn + 'p"
  message_id :: "'p \<Rightarrow> 'i"
  format_id :: "'i \<Rightarrow> string"

text \<open>
  The transport \<open>self._file\<close> and the wall clock are scripts: the outcome of the
  \<open>k\<close>-th call of \<open>write_raw\<close>, of \<open>read_raw\<close> and of \<open>time.time()\<close>. The state of
  an exchange is what has been sent and how many reads and clock readings were made.
  Clock readings are Python floats; they are only subtracted and compared here, so
  they are taken as reals.
\<close>

record transport =
  write_script :: "nat \<Rightarrow> exn option"
  read_script :: "nat \<Rightarrow> exn + bytes"
  clock_script :: "nat \<Rightarrow> real"

record io_state =
  sent :: "bytes list"
  reads :: nat
  ticks :: nat

definition io_start :: io_state where
  "io_start = \<lparr>sent = [], reads = 0, ticks = 0\<rparr>"

definition write_raw :: "transport \<Rightarrow> bytes \<Rightarrow> io_state \<Rightarrow> exn option \<times> io_state" where
  "write_raw t b s = (write_script t (length (sent s)), s\<lparr>sent := sent s @ [b]\<rparr>)"

definition read_raw :: "transport \<Rightarrow> io_state \<Rightarrow> (exn + bytes) \<times> io_state" where
  "read_raw t s = (read_script t (reads s), s\<lparr>reads := Suc (reads s)\<rparr>)"

definition time_time :: "transport \<Rightarrow> io_state \<Rightarrow> real \<times> io_state" where
  "time_time t s = (clock_script t (ticks s), s\<lparr>ticks := Suc (ticks s)\<rparr>)"

subsection \<open>The timeout argument\<close>

text \<open>
  \<open>timeout\<close> is \<open>None\<close> (inherit the transport's timeout), \<open>False\<close> (documented as
  "waits indefinitely"), a bare number, or a quantity \<open>TQuantity m u\<close> of magnitude
  \<open>m\<close> in a unit worth \<open>u\<close> seconds. \<open>truthy\<close> is Python's truth value of the
  argument, and \<open>in_seconds\<close> is
  \<open>assume_units(timeout, second).rescale('second').magnitude\<close> (the units library is
  a collaborator; a bare number is taken to be in seconds).

  \<open>bound\<close> is the right-hand side of \<open>tic - t_start > timeout\<close> as Python evaluates
  it: \<open>False\<close> is the integer \<open>0\<close> in a comparison. The comparison is not reached
  with \<open>None\<close>, where the loop has already been left.
\<close>

datatype timeout = TNone | TFalse | TNumber real | TQuantity real real

fun truthy :: "timeout \<Rightarrow> bool" where
  "truthy TNone = False"
| "truthy TFalse = False"
| "truthy (TNumber x) = (x \<noteq> 0)"
| "truthy (TQuantity m u) = (m \<noteq> 0)"

fun in_seconds :: "timeout \<Rightarrow> real" where
  "in_seconds (TNumber x) = x"
| "in_seconds (TQuantity m u) = m * u"
| "in_seconds TNone = 0"
| "in_seconds TFalse = 0"

definition normalise :: "timeout \<Rightarrow> timeout" where
  "normalise tmo = (if truthy tmo then TNumber (in_seconds tmo) else tmo)"

fun bound :: "timeout \<Rightarrow> real" where
  "bound TNone = 0"
| "bound TFalse = 0"
| "bound (TNumber x) = x"
| "bound (TQuantity m u) = m * u"

subsection \<open>querypacket\<close>

text \<open>
  The \<open>while True\<close> loop of \<open>querypacket\<close>. It may run forever, so it is a partial
  function: \<open>None\<close> means the loop never leaves. A result \<open>Inl e\<close> is an exception
  of the transport, \<open>Inr resp\<close> the value of \<open>resp\<close> when the loop is left.
\<close>

partial_function (option) poll ::
  "transport \<Rightarrow> bytes \<Rightarrow> timeout \<Rightarrow> real \<Rightarrow> io_state \<Rightarrow> ((exn + bytes) \<times> io_state) option"
where
  "poll t req tmo t_start s =
     (case write_raw t req s of
        (Some e, s1) \<Rightarrow> Some (Inl e, s1)
      | (None, s1) \<Rightarrow>
          (case read_raw t s1 of
             (Inl e, s2) \<Rightarrow> Some (Inl e, s2)
           | (Inr resp, s2) \<Rightarrow>
               if resp \<noteq> [] \<or> tmo = TNone then Some (Inr resp, s2)
               else (case time_time t s2 of
                       (tic, s3) \<Rightarrow>
                         if tic - t_start > bound tmo then Some (Inr resp, s3)
                         else poll t req tmo t_start s3)))"

text \<open>
  What follows the loop: the result is \<open>Inr None\<close> for Python's \<open>None\<close>,
  \<open>Inr (Some pkt)\<close> for a returned packet, \<open>Inl e\<close> for a raised exception.
\<close>

definition resolve ::
  "('p, 'i) packets \<Rightarrow> 'i option \<Rightarrow> bytes \<Rightarrow> exn + 'p option" where
  "resolve c expect resp =
     (if resp = [] then
        (case expect of
           None \<Rightarrow> Inr None
         | Some e \<Rightarrow>
             Inl (IOError (''Expected packet '' @ format_id c e @ '', got nothing instead.'')))
      else
        (case unpack c resp of
           Inl x \<Rightarrow> Inl x
         | Inr pkt \<Rightarrow>
             if expect \<noteq> None \<and> message_id c pkt \<noteq> the expect then
               Inl (IOError (''APT returned message ID '' @ format_id c (message_id c pkt)
                             @ '', expected '' @ format_id c (the expect)))
             else Inr (Some pkt)))"

definition querypacket ::
  "('p, 'i) packets \<Rightarrow> transport \<Rightarrow> 'p \<Rightarrow> 'i option \<Rightarrow> timeout \<Rightarrow> io_state
     \<Rightarrow> ((exn + 'p option) \<times> io_state) option" where
  "querypacket c t packet expect tmo s =
     (case time_time t s of
        (t_start, s0) \<Rightarrow>
          (case poll t (pack c packet) (normalise tmo) t_start s0 of
             None \<Rightarrow> None
           | Some (Inl e, s1) \<Rightarrow> Some (Inl e, s1)
           | Some (Inr resp, s1) \<Rightarrow> Some (resolve c expect resp, s1)))"

section \<open>abstract\_instruments/axis/perp\_ac.py: PerpendicularAC\<close>

subsection \<open>Collaborators\<close>

text \<open>
  A sub-collection is a duck-typed object: what the composite reads from it are its
  length and the attributes \<open>limits\<close>, \<open>position\<close> and \<open>units\<close> (Python lists, for
  which \<open>+\<close> is concatenation); \<open>ac_name\<close> identifies the object in the record of
  calls.
\<close>

record axis_collection =
  ac_name :: string
  ac_len :: nat
  ac_limits :: "(real \<times> real) list"
  ac_position :: "real list"
  ac_units :: "string list"

text \<open>
  What the composite does to the outside is a sequence of calls: \<open>move\<close> and
  \<open>raster\<close> of a sub-collection (with the arguments passed; the \<open>absolute\<close> flag is
  \<open>None\<close> where the call leaves it out), and the hooks \<open>on_scan_start\<close>,
  \<open>on_scan_step\<close>, \<open>on_scan_complete\<close> inherited from the base class, each called
  with a pair of coordinates and dwell time.

  The collaborators are a function \<open>w\<close> from the calls made so far and the next call
  to that call's outcome: \<open>None\<close> when it returns, \<open>Some e\<close> when it raises \<open>e\<close>.
  \<open>invoke\<close> makes a call: it records it and yields its outcome.
\<close>

datatype call =
    Move string "real list" "bool option"
  | Raster string "real list" "real list" "nat list" "real option"
  | OnScanStart "real list list" "real option"
  | OnScanStep "real list list" "real option"
  | OnScanComplete "real list list" "real option"

type_synonym world = "call list \<Rightarrow> call \<Rightarrow> exn option"

definition invoke :: "world \<Rightarrow> call \<Rightarrow> call list \<Rightarrow> (exn + unit) \<times> call list" where
  "invoke w c tr = (case w tr c of None \<Rightarrow> (Inr (), tr @ [c]) | Some e \<Rightarrow> (Inl e, tr @ [c]))"

definition quiet :: world where
  "quiet = (\<lambda>tr c. None)"

subsection \<open>numpy and itertools\<close>

text \<open>
  An n-dimensional array is its shape and its elements in row-major (C) order.
  \<open>unravel\<close> turns a position in that order into an index tuple, \<open>ravel\<close> does the
  converse.
\<close>

record 'a ndarray =
  shape :: "nat list"
  flat :: "'a list"

fun unravel :: "nat list \<Rightarrow> nat \<Rightarrow> nat list" where
  "unravel [] p = []"
| "unravel (d # ds) p = (p div prod_list ds) # unravel ds (p mod prod_list ds)"

fun ravel :: "nat list \<Rightarrow> nat list \<Rightarrow> nat" where
  "ravel (d # ds) (i # is) = i * prod_list ds + ravel ds is"
| "ravel ds is = 0"

text \<open>
  \<open>np.linspace(start, stop, num)\<close>: \<open>num\<close> evenly spaced values from \<open>start\<close> to
  \<open>stop\<close>, both included, in exact arithmetic. The point counts are natural numbers
  (numpy refuses a negative count).
\<close>

definition linspace :: "real \<Rightarrow> real \<Rightarrow> nat \<Rightarrow> real list" where
  "linspace start stop num =
     (if num = 1 then [start]
      else map (\<lambda>k. start + real k * ((stop - start) / real (num - 1))) [0..<num])"

text \<open>
  \<open>np.meshgrid(*xi)\<close> with its default \<open>indexing='xy'\<close>: one array per input, all of
  the same shape, where input \<open>i\<close> varies along dimension \<open>axis_of n i\<close> and is
  repeated along the others. With two or more inputs, the default indexing swaps the
  first two dimensions: the shape is \<open>(N1, N0, N2, ...)\<close>.
\<close>

definition axis_of :: "nat \<Rightarrow> nat \<Rightarrow> nat" where
  "axis_of n i = (if 1 < n \<and> i = 0 then 1 else if 1 < n \<and> i = 1 then 0 else i)"

definition meshgrid :: "'a list list \<Rightarrow> 'a ndarray list" where
  "meshgrid xi =
     (let n = length xi;
          sh = map (\<lambda>d. length (xi ! axis_of n d)) [0..<n]
      in map (\<lambda>i. \<lparr>shape = sh,
                    flat = map (\<lambda>p. (xi ! i) ! (unravel sh p ! axis_of n i))
                               [0..<prod_list sh]\<rparr>)
             [0..<n])"

text \<open>
  \<open>np.array\<close> of a list of equally shaped arrays stacks them along a new first
  dimension (an empty list gives an array of shape \<open>(0,)\<close>); \<open>transpose()\<close> reverses
  the order of the dimensions; \<open>reshape\<close> keeps the row-major order of the elements
  and raises \<open>ValueError\<close> when the sizes differ; iterating over a two-dimensional
  array yields its rows.
\<close>

definition np_array :: "'a ndarray list \<Rightarrow> 'a ndarray" where
  "np_array as =
     (case as of
        [] \<Rightarrow> \<lparr>shape = [0], flat = []\<rparr>
      | a # _ \<Rightarrow> \<lparr>shape = length as # shape a, flat = concat (map flat as)\<rparr>)"

definition transpose_nd :: "'a ndarray \<Rightarrow> 'a ndarray" where
  "transpose_nd a =
     \<lparr>shape = rev (shape a),
      flat = map (\<lambda>p. flat a ! ravel (shape a) (rev (unravel (rev (shape a)) p)))
                 [0..<prod_list (shape a)]\<rparr>"

definition reshape :: "'a ndarray \<Rightarrow> nat list \<Rightarrow> exn + 'a ndarray" where
  "reshape a sh =
     (if prod_list sh = length (flat a) then Inr \<lparr>shape = sh, flat = flat a\<rparr>
      else Inl (ValueError ''total size of new array must be unchanged''))"

definition rows :: "'a ndarray \<Rightarrow> 'a list list" where
  "rows a =
     (case shape a of
        [r, c] \<Rightarrow> map (\<lambda>k. take c (drop (k * c) (flat a))) [0..<r]
      | _ \<Rightarrow> [])"

text \<open>
  \<open>izip(*seqs)\<close>: the tuples of the \<open>k\<close>-th elements, as long as every sequence has
  one; nothing for no sequence at all.
\<close>

definition izip :: "'a list list \<Rightarrow> 'a list list" where
  "izip seqs =
     (if seqs = [] then []
      else map (\<lambda>k. map (\<lambda>s. s ! k) seqs) [0..<Min (set (map length seqs))])"

text \<open>
  Modelled from the spec: \<open>assume_units\<close> of \<open>instruments.util_fns\<close>, which is not
  among the sources at hand. A bare number is taken to be in the given unit; the
  model computes with magnitudes in the axis's declared unit.
\<close>

definition assume_units :: "real \<Rightarrow> string \<Rightarrow> real" where
  "assume_units x unit = x"

subsection \<open>The composite\<close>

text \<open>
  The constructor assigns four attributes (written here without their leading
  underscore). \<open>getattr\<close> is the lookup of an attribute that is then used as an axis
  collection: only the two names below denote one, every other name ends in
  \<open>AttributeError\<close>.
\<close>

record PerpendicularAC =
  major_axes :: axis_collection
  minor_axes :: axis_collection
  n_major_axes :: nat
  n_minor_axes :: nat

definition PerpendicularAC_init :: "axis_collection \<Rightarrow> axis_collection \<Rightarrow> PerpendicularAC" where
  "PerpendicularAC_init major minor =
     \<lparr>major_axes = major, minor_axes = minor,
      n_major_axes = ac_len major, n_minor_axes = ac_len minor\<rparr>"

definition getattr :: "PerpendicularAC \<Rightarrow> string \<Rightarrow> exn + axis_collection" where
  "getattr self name =
     (if name = ''_major_axes'' then Inr (major_axes self)
      else if name = ''_minor_axes'' then Inr (minor_axes self)
      else Inl (AttributeError name))"

definition finest_axes :: "PerpendicularAC \<Rightarrow> axis_collection option" where
  "finest_axes self = (let unused = minor_axes self in None)"

definition limits :: "PerpendicularAC \<Rightarrow> (real \<times> real) list" where
  "limits self = ac_limits (major_axes self) @ ac_limits (minor_axes self)"

definition position :: "PerpendicularAC \<Rightarrow> real list" where
  "position self = ac_position (major_axes self) @ ac_position (minor_axes self)"

definition units :: "PerpendicularAC \<Rightarrow> string list" where
  "units self = ac_units (major_axes self) @ ac_units (minor_axes self)"

definition PerpendicularAC_len :: "PerpendicularAC \<Rightarrow> nat" where
  "PerpendicularAC_len self = n_major_axes self + n_minor_axes self"

definition PerpendicularAC_move ::
  "world \<Rightarrow> PerpendicularAC \<Rightarrow> real list \<Rightarrow> bool \<Rightarrow> call list \<Rightarrow> (exn + unit) \<times> call list" where
  "PerpendicularAC_move w self pos absolute tr =
     (let major_pos = take (n_major_axes self) pos;
          minor_pos = drop (n_major_axes self) pos
      in case invoke w (Move (ac_name (major_axes self)) major_pos (Some absolute)) tr of
           (Inl e, tr1) \<Rightarrow> (Inl e, tr1)
         | (Inr u, tr1) \<Rightarrow>
             invoke w (Move (ac_name (minor_axes self)) minor_pos (Some absolute)) tr1)"

fun scan_loop ::
  "world \<Rightarrow> PerpendicularAC \<Rightarrow> real list list \<Rightarrow> real option \<Rightarrow> call list
     \<Rightarrow> (exn + unit) \<times> call list" where
  "scan_loop w self [] dwell_time tr = (Inr (), tr)"
| "scan_loop w self (coord # rest) dwell_time tr =
     (case PerpendicularAC_move w self coord True tr of
        (Inl e, tr1) \<Rightarrow> (Inl e, tr1)
      | (Inr u, tr1) \<Rightarrow>
          (case invoke w (OnScanStep [coord] dwell_time) tr1 of
             (Inl e, tr2) \<Rightarrow> (Inl e, tr2)
           | (Inr u, tr2) \<Rightarrow> scan_loop w self rest dwell_time tr2))"

definition PerpendicularAC_scan ::
  "world \<Rightarrow> PerpendicularAC \<Rightarrow> real list list \<Rightarrow> real option \<Rightarrow> call list
     \<Rightarrow> (exn + unit) \<times> call list" where
  "PerpendicularAC_scan w self coords dwell_time tr =
     (case invoke w (OnScanStart coords dwell_time) tr of
        (Inl e, tr1) \<Rightarrow> (Inl e, tr1)
      | (Inr u, tr1) \<Rightarrow>
          (case scan_loop w self (izip coords) dwell_time tr1 of
             (Inl e, tr2) \<Rightarrow> (Inl e, tr2)
           | (Inr u, tr2) \<Rightarrow> invoke w (OnScanComplete coords dwell_time) tr2))"

text \<open>
  \<open>_raster\<close> in two parts: \<open>raster_plan\<close> is the computation of \<open>major_axes_grid\<close>
  (the slices, the list comprehension over \<open>izip\<close> of four sequences, \<open>meshgrid\<close>,
  \<open>transpose\<close>, \<open>reshape\<close>), \<open>raster_loop\<close> is the \<open>for\<close> loop over its rows.
  The loop reads the attributes \<open>_major_axis\<close> and \<open>_minor_axis\<close>, as the source does.
\<close>

definition major_axis_steps ::
  "PerpendicularAC \<Rightarrow> real list \<Rightarrow> real list \<Rightarrow> nat list \<Rightarrow> real list list" where
  "major_axis_steps self start stop num =
     (let major_start = take (n_major_axes self) start;
          major_stop = take (n_major_axes self) stop;
          major_num = take (n_major_axes self) num
      in map (\<lambda>(m_start, m_stop, m_num, unit).
                linspace (assume_units m_start unit) (assume_units m_stop unit) m_num)
             (zip major_start (zip major_stop (zip major_num (ac_units (major_axes self))))))"

definition major_axes_grid :: "real list list \<Rightarrow> nat list \<Rightarrow> nat \<Rightarrow> exn + real list list" where
  "major_axes_grid steps major_num n =
     (case reshape (transpose_nd (np_array (meshgrid steps))) [prod_list major_num, n] of
        Inl e \<Rightarrow> Inl e
      | Inr a \<Rightarrow> Inr (rows a))"

definition raster_plan ::
  "PerpendicularAC \<Rightarrow> real list \<Rightarrow> real list \<Rightarrow> nat list \<Rightarrow> exn + real list list" where
  "raster_plan self start stop num =
     major_axes_grid (major_axis_steps self start stop num)
       (take (n_major_axes self) num) (n_major_axes self)"

fun raster_loop ::
  "world \<Rightarrow> PerpendicularAC \<Rightarrow> real list list \<Rightarrow> real list \<Rightarrow> real list \<Rightarrow> nat list
     \<Rightarrow> real option \<Rightarrow> call list \<Rightarrow> (exn + unit) \<times> call list" where
  "raster_loop w self [] minor_start minor_stop minor_num dwell_time tr = (Inr (), tr)"
| "raster_loop w self (coord # rest) minor_start minor_stop minor_num dwell_time tr =
     (case getattr self ''_major_axis'' of
        Inl e \<Rightarrow> (Inl e, tr)
      | Inr major \<Rightarrow>
          (case invoke w (Move (ac_name major) coord None) tr of
             (Inl e, tr1) \<Rightarrow> (Inl e, tr1)
           | (Inr u, tr1) \<Rightarrow>
               (case getattr self ''_minor_axis'' of
                  Inl e \<Rightarrow> (Inl e, tr1)
                | Inr minor \<Rightarrow>
                    (case invoke w (Raster (ac_name minor) minor_start minor_stop minor_num
                                      dwell_time) tr1 of
                       (Inl e, tr2) \<Rightarrow> (Inl e, tr2)
                     | (Inr u, tr2) \<Rightarrow>
                         raster_loop w self rest minor_start minor_stop minor_num
                           dwell_time tr2))))"

definition PerpendicularAC_raster ::
  "world \<Rightarrow> PerpendicularAC \<Rightarrow> real list \<Rightarrow> real list \<Rightarrow> nat list \<Rightarrow> real option
     \<Rightarrow> call list \<Rightarrow> (exn + unit) \<times> call list" where
  "PerpendicularAC_raster w self start stop num dwell_time tr =
     (case raster_plan self start stop num of
        Inl e \<Rightarrow> (Inl e, tr)
      | Inr grid \<Rightarrow>
          raster_loop w self grid (drop (n_major_axes self) start)
            (drop (n_major_axes self) stop) (drop (n_major_axes self) num) dwell_time tr)"

text \<open>
  The plan the specification describes, in its own words: the Cartesian product of the
  per-axis grids, the first axis varying slowest.
\<close>

definition typewriter_plan :: "'a list list \<Rightarrow> 'a list list" where
  "typewriter_plan grids = product_lists grids"

text \<open>
  Two notions for describing the plan of \<open>_raster\<close>: \<open>mesh_shape\<close> is the shape of
  the arrays that \<open>meshgrid\<close> returns, and \<open>plan_order n\<close> lists the \<open>n\<close> major axes
  from the one that varies slowest in the plan to the one that varies fastest.
\<close>

definition mesh_shape :: "'a list list \<Rightarrow> nat list" where
  "mesh_shape xi = map (\<lambda>d. length (xi ! axis_of (length xi) d)) [0..<length xi]"

definition plan_order :: "nat \<Rightarrow> nat list" where
  "plan_order n = map (\<lambda>e. axis_of n (n - 1 - e)) [0..<n]"

text \<open>
  A codec and two transports for running \<open>querypacket\<close> on concrete inputs: packets
  are a two-character identifier and a payload, sent as their concatenation;
  \<open>silent\<close> never answers while its clock advances by one second per reading;
  \<open>answering\<close> answers the first request with the frame \<open>''06xy''\<close>.
\<close>

definition demo_codec :: "(string \<times> bytes, string) packets" where
  "demo_codec = \<lparr>
     pack = (\<lambda>(i, d). i @ d),
     unpack = (\<lambda>bs. if length bs < 2 then Inl (Raised ''short packet'')
                       else Inr (take 2 bs, drop 2 bs)),
     message_id = fst,
     format_id = (\<lambda>i. i)\<rparr>"

definition silent :: transport where
  "silent = \<lparr>write_script = (\<lambda>k. None), read_script = (\<lambda>k. Inr []),
              clock_script = (\<lambda>k. real k)\<rparr>"

definition answering :: transport where
  "answering = \<lparr>write_script = (\<lambda>k. None), read_script = (\<lambda>k. Inr ''06xy''),
                 clock_script = (\<lambda>k. real k)\<rparr>"

text \<open>
  Sub-collections for running the composite on concrete inputs: a two-axis stage, a
  one-axis stage and a three-axis stage.
\<close>

definition stage_xy :: axis_collection where
  "stage_xy = \<lparr>ac_name = ''major'', ac_len = 2, ac_limits = [(0, 10), (0, 20)],
                ac_position = [4, 5], ac_units = [''mm'', ''mm'']\<rparr>"

definition stage_z :: axis_collection where
  "stage_z = \<lparr>ac_name = ''minor'', ac_len = 1, ac_limits = [(0, 5)],
               ac_position = [6], ac_units = [''um'']\<rparr>"

definition stage_xyz :: axis_collection where
  "stage_xyz = \<lparr>ac_name = ''major'', ac_len = 3, ac_limits = [(0, 10), (0, 20), (0, 30)],
                 ac_position = [0, 0, 0], ac_units = [''mm'', ''mm'', ''mm'']\<rparr>"

section \<open>Properties of querypacket\<close>

subsection \<open>One round of the loop\<close>

lemma poll_leaves_on_response:
  assumes "write_script t (length (sent s)) = None"
    and "read_script t (reads s) = Inr resp"
    and "resp \<noteq> [] \<or> tmo = TNone"
  shows "poll t req tmo t_start s =
           Some (Inr resp, s\<lparr>sent := sent s @ [req], reads := Suc (reads s)\<rparr>)"
  using assms by (subst poll.simps) (auto simp: write_raw_def read_raw_def)

lemma poll_leaves_on_elapsed:
  assumes "write_script t (length (sent s)) = None"
    and "read_script t (reads s) = Inr []"
    and "tmo \<noteq> TNone"
    and "clock_script t (ticks s) - t_start > bound tmo"
  shows "poll t req tmo t_start s =
           Some (Inr [], s\<lparr>sent := sent s @ [req], reads := Suc (reads s),
                             ticks := Suc (ticks s)\<rparr>)"
  using assms by (subst poll.simps) (simp add: write_raw_def read_raw_def time_time_def)

lemma poll_goes_round:
  assumes "write_script t (length (sent s)) = None"
    and "read_script t (reads s) = Inr []"
    and "tmo \<noteq> TNone"
    and "\<not> clock_script t (ticks s) - t_start > bound tmo"
  shows "poll t req tmo t_start s =
           poll t req tmo t_start
             (s\<lparr>sent := sent s @ [req], reads := Suc (reads s), ticks := Suc (ticks s)\<rparr>)"
  using assms by (subst poll.simps) (simp add: write_raw_def read_raw_def time_time_def)

subsection \<open>The timeout False\<close>

text \<open>
  C1. With \<open>timeout=False\<close> the elapsed-time check is not disabled: \<open>False\<close> is
  neither truthy nor \<open>None\<close>, so the loop reaches \<open>tic - t_start > timeout\<close> and
  compares the elapsed time with zero. On a transport that never answers, with a
  clock that advances, \<open>querypacket\<close> sends the request once, reads once and returns
  \<open>None\<close>, where the docstring promises that it waits indefinitely.
\<close>

theorem querypacket_False_gives_up:
  "querypacket demo_codec silent (''05'', []) None TFalse io_start =
     Some (Inr None, \<lparr>sent = [''05''], reads = 1, ticks = 2\<rparr>)"
proof -
  have "poll silent ''05'' TFalse 0 \<lparr>sent = [], reads = 0, ticks = 1\<rparr> =
          Some (Inr [], \<lparr>sent = [''05''], reads = 1, ticks = 2\<rparr>)"
    using poll_leaves_on_elapsed [of silent "\<lparr>sent = [], reads = 0, ticks = 1\<rparr>" TFalse 0 "''05''"]
    by (simp add: silent_def)
  then show ?thesis
    by (simp add: querypacket_def time_time_def io_start_def normalise_def resolve_def
        silent_def demo_codec_def)
qed

subsection \<open>After the loop\<close>

text \<open>
  C2. When the loop is left with a non-empty response that deserialises to \<open>pkt\<close>:
  with an expected identifier different from the packet's, \<open>querypacket\<close> raises
  \<open>IOError\<close> with the message \<open>APT returned message ID <received>, expected <expected>\<close>;
  with an equal one, or with none, it returns \<open>pkt\<close>.
\<close>

theorem querypacket_response:
  assumes "time_time t s = (t_start, s0)"
    and "poll t (pack c packet) (normalise tmo) t_start s0 = Some (Inr resp, s1)"
    and "resp \<noteq> []"
    and "unpack c resp = Inr pkt"
  shows "querypacket c t packet expect tmo s =
           Some (case expect of
                   None \<Rightarrow> Inr (Some pkt)
                 | Some e \<Rightarrow>
                     if message_id c pkt \<noteq> e then
                       Inl (IOError (''APT returned message ID '' @ format_id c (message_id c pkt)
                                     @ '', expected '' @ format_id c e))
                     else Inr (Some pkt),
                 s1)"
  using assms by (simp add: querypacket_def resolve_def split: option.split)

theorem querypacket_response_witness:
  "querypacket demo_codec answering (''05'', []) (Some ''07'') TNone io_start =
     Some (Inl (IOError ''APT returned message ID 06, expected 07''),
           \<lparr>sent = [''05''], reads = 1, ticks = 1\<rparr>)
   \<and> querypacket demo_codec answering (''05'', []) (Some ''06'') TNone io_start =
     Some (Inr (Some (''06'', ''xy'')), \<lparr>sent = [''05''], reads = 1, ticks = 1\<rparr>)
   \<and> querypacket demo_codec answering (''05'', []) None TNone io_start =
     Some (Inr (Some (''06'', ''xy'')), \<lparr>sent = [''05''], reads = 1, ticks = 1\<rparr>)"
proof -
  let ?s0 = "\<lparr>sent = [], reads = 0, ticks = 1\<rparr>"
  let ?s1 = "\<lparr>sent = [''05''], reads = 1, ticks = 1\<rparr>"
  have a: "time_time answering io_start = (0, ?s0)"
    by (simp add: time_time_def io_start_def answering_def)
  have b: "poll answering (pack demo_codec (''05'', [])) (normalise TNone) 0 ?s0 =
             Some (Inr ''06xy'', ?s1)"
    using poll_leaves_on_response [of answering ?s0 "''06xy''" TNone "''05''" 0]
    by (simp add: answering_def demo_codec_def normalise_def)
  have c: "''06xy'' \<noteq> []" by simp
  have d: "unpack demo_codec ''06xy'' = Inr (''06'', ''xy'')"
    by (simp add: demo_codec_def)
  show ?thesis
    using querypacket_response [OF a b c d, of "Some ''07''"]
      querypacket_response [OF a b c d, of "Some ''06''"]
      querypacket_response [OF a b c d, of None]
    by (simp add: demo_codec_def)
qed

text \<open>
  C3. When the loop is left with an empty response: without an expected identifier
  \<open>querypacket\<close> returns \<open>None\<close> and raises nothing; with one it raises \<open>IOError\<close>
  with the message \<open>Expected packet <expected>, got nothing instead.\<close>
\<close>

theorem querypacket_no_response:
  assumes "time_time t s = (t_start, s0)"
    and "poll t (pack c packet) (normalise tmo) t_start s0 = Some (Inr [], s1)"
  shows "querypacket c t packet expect tmo s =
           Some (case expect of
                   None \<Rightarrow> Inr None
                 | Some e \<Rightarrow>
                     Inl (IOError (''Expected packet '' @ format_id c e
                                   @ '', got nothing instead.'')),
                 s1)"
  using assms by (simp add: querypacket_def resolve_def split: option.split)

theorem querypacket_no_response_witness:
  "querypacket demo_codec silent (''05'', []) None (TNumber 2) io_start =
     Some (Inr None, \<lparr>sent = [''05'', ''05'', ''05''], reads = 3, ticks = 4\<rparr>)
   \<and> querypacket demo_codec silent (''05'', []) (Some ''06'') (TNumber 2) io_start =
     Some (Inl (IOError ''Expected packet 06, got nothing instead.''),
           \<lparr>sent = [''05'', ''05'', ''05''], reads = 3, ticks = 4\<rparr>)"
proof -
  let ?s0 = "\<lparr>sent = [], reads = 0, ticks = 1\<rparr>"
  let ?s1 = "\<lparr>sent = [''05'', ''05'', ''05''], reads = 3, ticks = 4\<rparr>"
  have a: "time_time silent io_start = (0, ?s0)"
    by (simp add: time_time_def io_start_def silent_def)
  have b: "poll silent (pack demo_codec (''05'', [])) (normalise (TNumber 2)) 0 ?s0 =
             Some (Inr [], ?s1)"
    apply (subst poll.simps)
    apply (simp add: write_raw_def read_raw_def time_time_def silent_def demo_codec_def
        normalise_def)
    apply (subst poll.simps)
    apply (simp add: write_raw_def read_raw_def time_time_def)
    apply (subst poll.simps)
    apply (simp add: write_raw_def read_raw_def time_time_def)
    done
  show ?thesis
    using querypacket_no_response [OF a b, of None]
      querypacket_no_response [OF a b, of "Some ''06''"]
    by (simp add: demo_codec_def)
qed

section \<open>Properties of PerpendicularAC\<close>

subsection \<open>Calls\<close>

lemma invoke_returns: "w tr c = None \<Longrightarrow> invoke w c tr = (Inr (), tr @ [c])"
  by (simp add: invoke_def)

lemma invoke_raises: "w tr c = Some e \<Longrightarrow> invoke w c tr = (Inl e, tr @ [c])"
  by (simp add: invoke_def)

lemma move_cases:
  "PerpendicularAC_move w self pos absolute tr =
     (let m = Move (ac_name (major_axes self)) (take (n_major_axes self) pos) (Some absolute);
          n = Move (ac_name (minor_axes self)) (drop (n_major_axes self) pos) (Some absolute)
      in case w tr m of
           Some e \<Rightarrow> (Inl e, tr @ [m])
         | None \<Rightarrow> (case w (tr @ [m]) n of None \<Rightarrow> Inr () | Some e \<Rightarrow> Inl e, tr @ [m, n]))"
  by (simp add: PerpendicularAC_move_def invoke_def Let_def split: option.split)

subsection \<open>Attributes\<close>

text \<open>
  C6. For a composite built from \<open>major\<close> and \<open>minor\<close>, \<open>limits\<close>, \<open>position\<close> and
  \<open>units\<close> are the major collection's value followed by the minor collection's, and
  the length is the sum of the two lengths.
\<close>

theorem composite_aggregation:
  "limits (PerpendicularAC_init major minor) = ac_limits major @ ac_limits minor
   \<and> position (PerpendicularAC_init major minor) = ac_position major @ ac_position minor
   \<and> units (PerpendicularAC_init major minor) = ac_units major @ ac_units minor
   \<and> PerpendicularAC_len (PerpendicularAC_init major minor) = ac_len major + ac_len minor"
  by (simp add: limits_def position_def units_def PerpendicularAC_len_def PerpendicularAC_init_def)

text \<open>
  C10. Reading \<open>finest_axes\<close> yields \<open>None\<close>, not the minor collection: the body of
  the property evaluates \<open>self._minor_axes\<close> and returns nothing.
\<close>

theorem finest_axes_is_None:
  "finest_axes self = None \<and> finest_axes (PerpendicularAC_init major minor) \<noteq> Some minor"
  by (simp add: finest_axes_def)

subsection \<open>move\<close>

text \<open>
  C5. For a position sequence as long as the composite, \<open>_move\<close> first calls the major
  collection's \<open>move\<close> with the first \<open>len(major)\<close> positions, then the minor
  collection's \<open>move\<close> with the remaining \<open>len(minor)\<close> ones, both with the
  \<open>absolute\<close> flag it was given. The minor call is made once the major call has
  returned; an exception of the major call is passed on instead.
\<close>

theorem composite_move_split:
  assumes "self = PerpendicularAC_init major minor"
    and "length pos = PerpendicularAC_len self"
  shows "PerpendicularAC_move w self pos absolute tr =
     (let m = Move (ac_name major) (take (ac_len major) pos) (Some absolute);
          n = Move (ac_name minor) (drop (ac_len major) pos) (Some absolute)
      in case w tr m of
           Some e \<Rightarrow> (Inl e, tr @ [m])
         | None \<Rightarrow> (case w (tr @ [m]) n of None \<Rightarrow> Inr () | Some e \<Rightarrow> Inl e, tr @ [m, n]))
     \<and> length (take (ac_len major) pos) = ac_len major
     \<and> length (drop (ac_len major) pos) = ac_len minor
     \<and> take (ac_len major) pos @ drop (ac_len major) pos = pos"
  using assms
  by (simp add: move_cases PerpendicularAC_init_def PerpendicularAC_len_def)

theorem composite_move_split_witness:
  "PerpendicularAC_move quiet (PerpendicularAC_init stage_xy stage_z) [1, 2, 3] True [] =
     (Inr (), [Move ''major'' [1, 2] (Some True), Move ''minor'' [3] (Some True)])"
proof -
  have "length [1, 2, 3 :: real] = PerpendicularAC_len (PerpendicularAC_init stage_xy stage_z)"
    by (simp add: PerpendicularAC_len_def PerpendicularAC_init_def stage_xy_def stage_z_def)
  from composite_move_split [OF refl this, of quiet True "[]"] show ?thesis
    by (simp add: quiet_def stage_xy_def stage_z_def)
qed

text \<open>
  C4, as stated: a position sequence of the wrong length makes \<open>_move\<close> raise before
  a sub-collection is called. It does not: with one position for a composite of
  three axes, both sub-collections are called and nothing is raised.
\<close>

theorem composite_move_length_counterexample:
  "length [1 :: real] \<noteq> PerpendicularAC_len (PerpendicularAC_init stage_xy stage_z)
   \<and> PerpendicularAC_move quiet (PerpendicularAC_init stage_xy stage_z) [1] True [] =
       (Inr (), [Move ''major'' [1] (Some True), Move ''minor'' [] (Some True)])"
  by (simp add: move_cases PerpendicularAC_len_def PerpendicularAC_init_def
      stage_xy_def stage_z_def quiet_def)

text \<open>
  C4, amended. \<open>_move\<close> makes no check of the length. For a position sequence of the
  wrong length it calls the major collection's \<open>move\<close> with the first positions (at
  most as many as the major axis count); an exception it ends with is one that a
  sub-collection raised; and when no call raises, the minor collection's \<open>move\<close> is
  called with the remaining positions and \<open>_move\<close> returns.
\<close>

theorem composite_move_unchecked:
  assumes "length pos \<noteq> PerpendicularAC_len self"
  shows "(\<exists>rest. snd (PerpendicularAC_move w self pos absolute tr) =
            tr @ Move (ac_name (major_axes self)) (take (n_major_axes self) pos) (Some absolute)
                 # rest)
     \<and> (\<forall>e. fst (PerpendicularAC_move w self pos absolute tr) = Inl e \<longrightarrow> (\<exists>h c. w h c = Some e))
     \<and> ((\<forall>h c. w h c = None) \<longrightarrow>
          PerpendicularAC_move w self pos absolute tr =
            (Inr (), tr @ [Move (ac_name (major_axes self)) (take (n_major_axes self) pos)
                             (Some absolute),
                           Move (ac_name (minor_axes self)) (drop (n_major_axes self) pos)
                             (Some absolute)]))"
  by (auto simp: move_cases Let_def split: option.split)

theorem composite_move_unchecked_witness:
  "length [1, 2, 3, 4 :: real] \<noteq> PerpendicularAC_len (PerpendicularAC_init stage_xy stage_z)
   \<and> PerpendicularAC_move quiet (PerpendicularAC_init stage_xy stage_z) [1, 2, 3, 4] False [] =
       (Inr (), [Move ''major'' [1, 2] (Some False), Move ''minor'' [3, 4] (Some False)])"
proof -
  have l: "length [1, 2, 3, 4 :: real] \<noteq> PerpendicularAC_len (PerpendicularAC_init stage_xy stage_z)"
    by (simp add: PerpendicularAC_len_def PerpendicularAC_init_def stage_xy_def stage_z_def)
  have q: "\<forall>h c. quiet h c = None"
    by (simp add: quiet_def)
  from composite_move_unchecked [OF l, of quiet False "[]"] q l show ?thesis
    by (simp add: PerpendicularAC_init_def stage_xy_def stage_z_def)
qed

subsection \<open>scan\<close>

lemma scan_loop_quiet:
  assumes "\<forall>h c. w h c = None"
  shows "scan_loop w self pts dwell_time tr =
     (Inr (), tr @ concat (map (\<lambda>pt.
        [Move (ac_name (major_axes self)) (take (n_major_axes self) pt) (Some True),
         Move (ac_name (minor_axes self)) (drop (n_major_axes self) pt) (Some True),
         OnScanStep [pt] dwell_time]) pts))"
  using assms
  by (induction pts arbitrary: tr) (simp_all add: PerpendicularAC_move_def invoke_def)

lemma izip_equal_lengths:
  assumes "seqs \<noteq> []" and "\<forall>s\<in>set seqs. length s = n"
  shows "izip seqs = map (\<lambda>k. map (\<lambda>s. s ! k) seqs) [0..<n]"
proof -
  from assms have "set (map length seqs) = {n}" by (cases seqs) auto
  then have "Min (set (map length seqs)) = n" by simp
  with assms(1) show ?thesis by (simp add: izip_def)
qed

text \<open>
  C9. A scan over \<open>n\<close> points (every per-axis sequence of \<open>coords\<close> has length \<open>n\<close>),
  where no call raises: \<open>on_scan_start\<close> with the coordinates and the dwell time;
  then for each \<open>k < n\<close> in order the composite move to point \<open>k\<close> (major move, minor
  move, both absolute) followed at once by \<open>on_scan_step\<close> with that point and the
  dwell time; then \<open>on_scan_complete\<close> with the coordinates and the dwell time.
  Nothing else is called, and the scan returns.
\<close>

theorem scan_sequence:
  assumes "\<forall>h c. w h c = None"
    and "coords \<noteq> []"
    and "\<forall>s\<in>set coords. length s = n"
  shows "PerpendicularAC_scan w self coords dwell_time tr =
     (Inr (),
      tr @ [OnScanStart coords dwell_time]
         @ concat (map (\<lambda>k.
             [Move (ac_name (major_axes self))
                (take (n_major_axes self) (map (\<lambda>s. s ! k) coords)) (Some True),
              Move (ac_name (minor_axes self))
                (drop (n_major_axes self) (map (\<lambda>s. s ! k) coords)) (Some True),
              OnScanStep [map (\<lambda>s. s ! k) coords] dwell_time]) [0..<n])
         @ [OnScanComplete coords dwell_time])"
  using assms(1)
  by (simp add: PerpendicularAC_scan_def invoke_def scan_loop_quiet
      izip_equal_lengths [OF assms(2,3)] map_concat comp_def take_map drop_map)

theorem scan_sequence_witness:
  "PerpendicularAC_scan quiet (PerpendicularAC_init stage_xy stage_z)
     [[1, 2], [3, 4], [5, 6]] (Some 7) [] =
   (Inr (),
    [OnScanStart [[1, 2], [3, 4], [5, 6]] (Some 7),
     Move ''major'' [1, 3] (Some True), Move ''minor'' [5] (Some True),
     OnScanStep [[1, 3, 5]] (Some 7),
     Move ''major'' [2, 4] (Some True), Move ''minor'' [6] (Some True),
     OnScanStep [[2, 4, 6]] (Some 7),
     OnScanComplete [[1, 2], [3, 4], [5, 6]] (Some 7)])"
proof -
  have q: "\<forall>h c. quiet h c = None"
    by (simp add: quiet_def)
  have ne: "[[1, 2], [3, 4], [5, 6 :: real]] \<noteq> []"
    by simp
  have len: "\<forall>s\<in>set [[1, 2], [3, 4], [5, 6 :: real]]. length s = 2"
    by simp
  have u: "[0..<2] = [0, 1]"
    by (simp add: upt_conv_Cons)
  from scan_sequence [OF q ne len, of "PerpendicularAC_init stage_xy stage_z" "Some 7" "[]"]
  show ?thesis
    by (simp add: u PerpendicularAC_init_def stage_xy_def stage_z_def)
qed

subsection \<open>raster\<close>

lemma raster_loop_raises:
  "raster_loop w self (coord # rest) minor_start minor_stop minor_num dwell_time tr =
     (Inl (AttributeError ''_major_axis''), tr)"
  by (simp add: getattr_def)

lemma raster_calls_nothing:
  "snd (PerpendicularAC_raster w self start stop num dwell_time tr) = tr"
proof (cases "raster_plan self start stop num")
  case (Inl e)
  then show ?thesis by (simp add: PerpendicularAC_raster_def)
next
  case (Inr grid)
  then show ?thesis
    by (cases grid) (simp_all add: PerpendicularAC_raster_def getattr_def)
qed

text \<open>
  C7. The loop of \<open>_raster\<close> reads \<open>self._major_axis\<close> and \<open>self._minor_axis\<close>, while
  the constructor stores the sub-collections as \<open>_major_axes\<close> and \<open>_minor_axes\<close>.
  For a two-axis major and a one-axis minor collection and well-formed arguments
  the plan has four coordinates, and the raster ends at the first of them with
  \<open>AttributeError\<close>: no sub-collection is moved or rastered.
\<close>

theorem raster_raises_AttributeError:
  "raster_plan (PerpendicularAC_init stage_xy stage_z) [0, 0, 0] [1, 1, 1] [2, 2, 3] =
     Inr [[0, 0], [0, 1], [1, 0], [1, 1]]
   \<and> PerpendicularAC_raster quiet (PerpendicularAC_init stage_xy stage_z)
       [0, 0, 0] [1, 1, 1] [2, 2, 3] None [] =
     (Inl (AttributeError ''_major_axis''), [])"
proof -
  have p: "raster_plan (PerpendicularAC_init stage_xy stage_z) [0, 0, 0] [1, 1, 1] [2, 2, 3] =
     Inr [[0, 0], [0, 1], [1, 0], [1, 1]]"
    by code_simp
  show ?thesis
    by (simp add: p PerpendicularAC_raster_def getattr_def)
qed

subsection \<open>The plan of a raster\<close>

text \<open>
  Index tuples and row-major positions: \<open>unravel\<close> stays within the shape and
  \<open>ravel\<close> inverts it; a position in an array with one more, last dimension splits
  into the position in the array without it and the last index.
\<close>

lemma length_unravel: "length (unravel ds p) = length ds"
  by (induction ds arbitrary: p) simp_all

lemma prod_list_pos_if_less: "p < prod_list ds \<Longrightarrow> 0 < prod_list (ds :: nat list)"
  by (cases "prod_list ds = 0") simp_all

lemma unravel_bound:
  "p < prod_list ds \<Longrightarrow> d < length ds \<Longrightarrow> unravel ds p ! d < ds ! d"
proof (induction ds arbitrary: p d)
  case Nil
  then show ?case by simp
next
  case (Cons a ds)
  from Cons.prems(1) have pos: "0 < prod_list ds"
    by (cases "prod_list ds = 0") simp_all
  show ?case
  proof (cases d)
    case 0
    with Cons.prems(1) show ?thesis
      by (simp add: less_mult_imp_div_less mult.commute)
  next
    case (Suc e)
    with Cons.prems(2) have "e < length ds" by simp
    moreover from pos have "p mod prod_list ds < prod_list ds" by simp
    ultimately show ?thesis using Suc by (simp add: Cons.IH)
  qed
qed

lemma ravel_bound_inverse:
  "list_all2 (<) I ds \<Longrightarrow> ravel ds I < prod_list ds \<and> unravel ds (ravel ds I) = I"
proof (induction rule: list_all2_induct)
  case Nil
  then show ?case by simp
next
  case (Cons i I d ds)
  let ?P = "prod_list ds" and ?r = "ravel ds I"
  from Cons.IH have r: "?r < ?P" and u: "unravel ds ?r = I" by simp_all
  have "i * ?P + ?r < i * ?P + ?P" using r by simp
  also have "\<dots> = (i + 1) * ?P" by simp
  also have "\<dots> \<le> d * ?P" using Cons.hyps(1) by (intro mult_le_mono1) simp
  finally have b: "i * ?P + ?r < d * ?P" .
  from r have "(i * ?P + ?r) div ?P = i" and "(i * ?P + ?r) mod ?P = ?r" by simp_all
  with b u show ?case by simp
qed

lemma index_snoc_div:
  assumes "c < (n::nat)"
  shows "(k * n + c) div (P * n) = k div P"
proof -
  have "(k * n + c) div (n * P) = (k * n + c) div n div P"
    by (rule div_mult2_eq)
  moreover from assms have "(k * n + c) div n = k" by simp
  ultimately show ?thesis by (simp add: mult.commute)
qed

lemma index_snoc_mod:
  assumes "c < (n::nat)"
  shows "(k * n + c) mod (P * n) = k mod P * n + c"
proof -
  have "(k * n + c) mod (n * P) = n * ((k * n + c) div n mod P) + (k * n + c) mod n"
    by (rule mod_mult2_eq)
  moreover from assms have "(k * n + c) div n = k" and "(k * n + c) mod n = c" by simp_all
  ultimately show ?thesis by (simp add: mult.commute)
qed

lemma unravel_snoc:
  "c < n \<Longrightarrow> k < prod_list ds \<Longrightarrow> unravel (ds @ [n]) (k * n + c) = unravel ds k @ [c]"
proof (induction ds arbitrary: k)
  case Nil
  then show ?case by simp
next
  case (Cons a ds)
  from Cons.prems(2) have "0 < prod_list ds"
    by (cases "prod_list ds = 0") simp_all
  then have "k mod prod_list ds < prod_list ds" by simp
  with Cons.IH [OF Cons.prems(1)] Cons.prems(1) show ?case
    by (simp add: index_snoc_div index_snoc_mod)
qed

text \<open>
  The \<open>k\<close>-th element of a product of lists is made of the elements whose indices
  are the index tuple of \<open>k\<close> in the shape of the lengths.
\<close>

lemma concat_nth_equal_length:
  "\<forall>l\<in>set ls. length l = P \<Longrightarrow> c < length ls \<Longrightarrow> r < P \<Longrightarrow>
     concat ls ! (c * P + r) = ls ! c ! r"
proof (induction ls arbitrary: c)
  case Nil
  then show ?case by simp
next
  case (Cons l ls)
  then show ?case by (cases c) (simp_all add: nth_append)
qed

lemma length_concat_equal_length:
  "\<forall>l\<in>set ls. length l = P \<Longrightarrow> length (concat ls) = length ls * P"
  by (induction ls) simp_all

lemma length_typewriter:
  "length (product_lists xss) = prod_list (map length xss)"
proof (induction xss)
  case Nil
  then show ?case by simp
next
  case (Cons xs xss)
  let ?ls = "map (\<lambda>x. map (Cons x) (product_lists xss)) xs"
  have "\<forall>l\<in>set ?ls. length l = prod_list (map length xss)"
    by (simp add: Cons.IH)
  then have "length (concat ?ls) = length ?ls * prod_list (map length xss)"
    by (rule length_concat_equal_length)
  then show ?case by simp
qed

lemma product_lists_nth:
  "k < prod_list (map length xss) \<Longrightarrow>
     product_lists xss ! k = map (\<lambda>(xs, i). xs ! i) (zip xss (unravel (map length xss) k))"
proof (induction xss arbitrary: k)
  case Nil
  then show ?case by simp
next
  case (Cons xs xss)
  let ?P = "prod_list (map length xss)"
  let ?ls = "map (\<lambda>x. map (Cons x) (product_lists xss)) xs"
  from Cons.prems have pos: "0 < ?P"
    by (cases "?P = 0") simp_all
  have len: "\<forall>l\<in>set ?ls. length l = ?P"
    by (simp add: length_typewriter)
  have c: "k div ?P < length ?ls"
    using Cons.prems by (simp add: less_mult_imp_div_less mult.commute)
  have r: "k mod ?P < ?P"
    using pos by simp
  have "concat ?ls ! (k div ?P * ?P + k mod ?P) = ?ls ! (k div ?P) ! (k mod ?P)"
    using len c r by (rule concat_nth_equal_length)
  then have "concat ?ls ! k = ?ls ! (k div ?P) ! (k mod ?P)"
    by simp
  with c r show ?case
    by (simp add: Cons.IH length_typewriter)
qed

text \<open>
  The arrays of \<open>meshgrid\<close>, stacked by \<open>np.array\<close> and transposed: element
  \<open>k * n + c\<close> of the result is the point of grid \<open>c\<close> whose index is found at
  position \<open>axis_of n c\<close> of the reversed index tuple of \<open>k\<close>.
\<close>

lemma axis_of_less: "c < n \<Longrightarrow> axis_of n c < n"
  by (simp add: axis_of_def)

lemma axis_of_involution: "axis_of n (axis_of n c) = c"
  by (simp add: axis_of_def)

lemma unravel_in_shape: "k < prod_list ds \<Longrightarrow> list_all2 (<) (unravel ds k) ds"
  by (simp add: list_all2_conv_all_nth length_unravel unravel_bound)

lemma length_meshgrid: "length (meshgrid xi) = length xi"
  by (simp add: meshgrid_def Let_def)

lemma meshgrid_nth:
  "c < length xi \<Longrightarrow>
     meshgrid xi ! c =
       \<lparr>shape = mesh_shape xi,
        flat = map (\<lambda>p. xi ! c ! (unravel (mesh_shape xi) p ! axis_of (length xi) c))
                   [0..<prod_list (mesh_shape xi)]\<rparr>"
  by (simp add: meshgrid_def Let_def mesh_shape_def)

lemma length_mesh_shape: "length (mesh_shape xi) = length xi"
  by (simp add: mesh_shape_def)

lemma np_array_meshgrid:
  assumes "xi \<noteq> []"
  shows "np_array (meshgrid xi) =
           \<lparr>shape = length xi # mesh_shape xi, flat = concat (map flat (meshgrid xi))\<rparr>"
proof -
  from assms have "0 < length xi" by simp
  then have z: "meshgrid xi ! 0 = \<lparr>shape = mesh_shape xi,
        flat = map (\<lambda>p. xi ! 0 ! (unravel (mesh_shape xi) p ! axis_of (length xi) 0))
                   [0..<prod_list (mesh_shape xi)]\<rparr>"
    by (rule meshgrid_nth)
  from assms obtain m ms where ms: "meshgrid xi = m # ms"
    by (cases "meshgrid xi") (simp_all add: meshgrid_def Let_def)
  with z have "shape m = mesh_shape xi" by simp
  with ms length_meshgrid [of xi] show ?thesis
    by (simp add: np_array_def)
qed

lemma flat_np_array_nth:
  assumes "c < length xi" and "r < prod_list (mesh_shape xi)"
  shows "flat (np_array (meshgrid xi)) ! (c * prod_list (mesh_shape xi) + r) =
           xi ! c ! (unravel (mesh_shape xi) r ! axis_of (length xi) c)"
proof -
  let ?P = "prod_list (mesh_shape xi)"
  let ?ls = "map flat (meshgrid xi)"
  from assms(1) have ne: "xi \<noteq> []" by auto
  have len: "\<forall>l\<in>set ?ls. length l = ?P"
    by (auto simp: meshgrid_def Let_def mesh_shape_def)
  have c: "c < length ?ls"
    using assms(1) by (simp add: length_meshgrid)
  have "concat ?ls ! (c * ?P + r) = ?ls ! c ! r"
    using len c assms(2) by (rule concat_nth_equal_length)
  also have "\<dots> = flat (meshgrid xi ! c) ! r"
    using assms(1) by (simp add: length_meshgrid)
  also have "\<dots> = xi ! c ! (unravel (mesh_shape xi) r ! axis_of (length xi) c)"
    using assms by (simp add: meshgrid_nth)
  finally show ?thesis
    by (simp add: np_array_meshgrid [OF ne])
qed

lemma length_flat_np_array:
  "xi \<noteq> [] \<Longrightarrow>
     length (flat (np_array (meshgrid xi))) = length xi * prod_list (mesh_shape xi)"
proof -
  assume ne: "xi \<noteq> []"
  have "\<forall>l\<in>set (map flat (meshgrid xi)). length l = prod_list (mesh_shape xi)"
    by (auto simp: meshgrid_def Let_def mesh_shape_def)
  then have "length (concat (map flat (meshgrid xi))) =
               length (map flat (meshgrid xi)) * prod_list (mesh_shape xi)"
    by (rule length_concat_equal_length)
  then show ?thesis
    by (simp add: np_array_meshgrid [OF ne] length_meshgrid)
qed

lemma transposed_nth_general:
  assumes "c < length xi" and "k < prod_list (mesh_shape xi)"
  shows "flat (transpose_nd (np_array (meshgrid xi))) ! (k * length xi + c) =
           xi ! c ! (rev (unravel (rev (mesh_shape xi)) k) ! axis_of (length xi) c)"
proof -
  let ?n = "length xi" and ?sh = "mesh_shape xi"
  let ?P = "prod_list ?sh"
  let ?I = "rev (unravel (rev ?sh) k)"
  from assms(1) have ne: "xi \<noteq> []" by auto
  have "k * ?n + c < k * ?n + ?n" using assms(1) by simp
  also have "\<dots> = (k + 1) * ?n" by simp
  also have "\<dots> \<le> ?P * ?n" using assms(2) by (intro mult_le_mono1) simp
  finally have q: "k * ?n + c < ?n * ?P" by (simp add: mult.commute)
  have k': "k < prod_list (rev ?sh)" using assms(2) by simp
  have u: "unravel (rev ?sh @ [?n]) (k * ?n + c) = unravel (rev ?sh) k @ [c]"
    using assms(1) k' by (rule unravel_snoc)
  have "list_all2 (<) (unravel (rev ?sh) k) (rev ?sh)"
    using k' by (rule unravel_in_shape)
  then have "list_all2 (<) ?I ?sh" by (simp add: list_all2_rev1)
  then have r: "ravel ?sh ?I < ?P" and i: "unravel ?sh (ravel ?sh ?I) = ?I"
    using ravel_bound_inverse [of ?I ?sh] by simp_all
  have "flat (transpose_nd (np_array (meshgrid xi))) ! (k * ?n + c) =
          flat (np_array (meshgrid xi)) ! ravel (?n # ?sh) (rev (unravel (rev ?sh @ [?n]) (k * ?n + c)))"
    using q by (simp add: transpose_nd_def np_array_meshgrid [OF ne])
  also have "\<dots> = flat (np_array (meshgrid xi)) ! (c * ?P + ravel ?sh ?I)"
    by (simp add: u)
  also have "\<dots> = xi ! c ! (unravel ?sh (ravel ?sh ?I) ! axis_of ?n c)"
    using assms(1) r by (rule flat_np_array_nth)
  finally show ?thesis by (simp add: i)
qed

lemma take_drop_row:
  assumes "k * n + n \<le> length F"
  shows "take n (drop (k * n) F) = map (\<lambda>c. F ! (k * n + c)) [0..<n]"
  using assms by (intro nth_equalityI) simp_all

lemma length_transposed:
  "xi \<noteq> [] \<Longrightarrow>
     length (flat (transpose_nd (np_array (meshgrid xi)))) = length xi * prod_list (mesh_shape xi)"
  by (simp add: transpose_nd_def np_array_meshgrid)

lemma upt_Suc_Suc: "[0..<Suc (Suc m)] = 0 # Suc 0 # map (\<lambda>i. Suc (Suc i)) [0..<m]"
proof -
  have "[0..<Suc (Suc m)] = 0 # [Suc 0..<Suc (Suc m)]"
    by (simp add: upt_conv_Cons)
  also have "[Suc 0..<Suc (Suc m)] = map Suc [0..<Suc m]"
    by (simp only: map_Suc_upt)
  also have "[0..<Suc m] = 0 # [Suc 0..<Suc m]"
    by (simp add: upt_conv_Cons)
  also have "[Suc 0..<Suc m] = map Suc [0..<m]"
    by (simp only: map_Suc_upt)
  finally show ?thesis by simp
qed

lemma mesh_shape_Cons_Cons:
  "mesh_shape (x0 # x1 # rest) = length x1 # length x0 # map length rest"
proof -
  have "map (\<lambda>i. length (rest ! i)) [0..<length rest] = map length rest"
    by (rule nth_equalityI) simp_all
  then show ?thesis
    by (simp add: mesh_shape_def upt_Suc_Suc axis_of_def comp_def del: upt_Suc)
qed

lemma prod_list_mesh_shape: "prod_list (mesh_shape xi) = prod_list (map length xi)"
proof (cases xi)
  case Nil
  then show ?thesis by (simp add: mesh_shape_def)
next
  case (Cons x0 xs)
  show ?thesis
  proof (cases xs)
    case Nil
    with Cons show ?thesis by (simp add: mesh_shape_def axis_of_def)
  next
    case (Cons x1 rest)
    with \<open>xi = x0 # xs\<close> show ?thesis
      by (simp add: mesh_shape_Cons_Cons)
  qed
qed

text \<open>
  The plan for any number of major axes: the product of the grids taken in
  \<open>plan_order\<close>, each row put back into the order of the axes. The plan has as many
  rows as the product of the grids in their own order, and the same rows.
\<close>

lemma length_plan_order: "length (plan_order n) = n"
  by (simp add: plan_order_def)

lemma lengths_in_plan_order:
  "map length (map (\<lambda>a. xi ! a) (plan_order (length xi))) = rev (mesh_shape xi)"
proof (rule nth_equalityI)
  show "length (map length (map (\<lambda>a. xi ! a) (plan_order (length xi)))) =
          length (rev (mesh_shape xi))"
    by (simp add: plan_order_def mesh_shape_def)
next
  fix e
  assume "e < length (map length (map (\<lambda>a. xi ! a) (plan_order (length xi))))"
  then have e: "e < length xi" by (simp add: plan_order_def)
  then have "length xi - Suc e < length xi" by simp
  with e show "map length (map (\<lambda>a. xi ! a) (plan_order (length xi))) ! e =
                 rev (mesh_shape xi) ! e"
    by (simp add: plan_order_def mesh_shape_def rev_nth)
qed

lemma prod_in_plan_order:
  "prod_list (map length (map (\<lambda>a. xi ! a) (plan_order (length xi)))) =
     prod_list (mesh_shape xi)"
  by (simp only: lengths_in_plan_order prod_list.rev)

lemma code_row:
  assumes "xi \<noteq> []" and "k < prod_list (mesh_shape xi)"
  shows "take (length xi) (drop (k * length xi) (flat (transpose_nd (np_array (meshgrid xi))))) =
           map (\<lambda>c. xi ! c ! (rev (unravel (rev (mesh_shape xi)) k) ! axis_of (length xi) c))
               [0..<length xi]"
proof -
  let ?n = "length xi" and ?F = "flat (transpose_nd (np_array (meshgrid xi)))"
  have "k * ?n + ?n = (k + 1) * ?n" by simp
  also have "\<dots> \<le> prod_list (mesh_shape xi) * ?n"
    using assms(2) by (intro mult_le_mono1) simp
  finally have "k * ?n + ?n \<le> length ?F"
    by (simp add: length_transposed [OF assms(1)] mult.commute)
  then have "take ?n (drop (k * ?n) ?F) = map (\<lambda>c. ?F ! (k * ?n + c)) [0..<?n]"
    by (rule take_drop_row)
  also have "\<dots> = map (\<lambda>c. xi ! c ! (rev (unravel (rev (mesh_shape xi)) k) ! axis_of ?n c))
                      [0..<?n]"
    using assms(2) by (simp add: transposed_nth_general)
  finally show ?thesis .
qed

lemma reordered_row:
  assumes "k < prod_list (mesh_shape xi)"
  shows "map (\<lambda>c. (typewriter_plan (map (\<lambda>a. xi ! a) (plan_order (length xi))) ! k)
                     ! (length xi - 1 - axis_of (length xi) c)) [0..<length xi] =
         map (\<lambda>c. xi ! c ! (rev (unravel (rev (mesh_shape xi)) k) ! axis_of (length xi) c))
             [0..<length xi]"
proof -
  let ?n = "length xi"
  let ?xss = "map (\<lambda>a. xi ! a) (plan_order ?n)"
  let ?D = "unravel (rev (mesh_shape xi)) k"
  have lD: "length ?D = ?n"
    by (simp add: length_unravel length_mesh_shape)
  have lx: "length ?xss = ?n"
    by (simp add: plan_order_def)
  have "k < prod_list (map length ?xss)"
    using assms by (simp only: prod_in_plan_order)
  then have r: "typewriter_plan ?xss ! k = map (\<lambda>(xs, i). xs ! i) (zip ?xss ?D)"
    unfolding typewriter_plan_def
    by (simp only: product_lists_nth lengths_in_plan_order)
  have "(typewriter_plan ?xss ! k) ! (?n - 1 - axis_of ?n c) =
          xi ! c ! (rev ?D ! axis_of ?n c)" if "c < ?n" for c
  proof -
    let ?j = "axis_of ?n c"
    from that have j: "?j < ?n" by (rule axis_of_less)
    then have e: "?n - 1 - ?j < ?n" by simp
    from j have inv: "?n - Suc (?n - Suc ?j) = ?j" by simp
    have a: "(typewriter_plan ?xss ! k) ! (?n - 1 - ?j) =
               ?xss ! (?n - 1 - ?j) ! (?D ! (?n - 1 - ?j))"
      using e by (simp add: r lD length_plan_order)
    have b: "?xss ! (?n - 1 - ?j) = xi ! c"
      using e by (simp add: plan_order_def inv axis_of_involution)
    have d: "?D ! (?n - 1 - ?j) = rev ?D ! ?j"
      using j by (simp add: rev_nth lD)
    show ?thesis
      by (simp only: a b d)
  qed
  then have "\<forall>c\<in>{0..<?n}. (typewriter_plan ?xss ! k) ! (?n - 1 - axis_of ?n c) =
          xi ! c ! (rev ?D ! axis_of ?n c)"
    by simp
  then show ?thesis
    by (intro map_cong refl) simp
qed

lemma major_axes_grid_general:
  "major_axes_grid xi (map length xi) (length xi) =
     Inr (map (\<lambda>r. map (\<lambda>c. r ! (length xi - 1 - axis_of (length xi) c)) [0..<length xi])
              (typewriter_plan (map (\<lambda>a. xi ! a) (plan_order (length xi)))))"
proof (cases "xi = []")
  case True
  then show ?thesis
    by (simp add: major_axes_grid_def meshgrid_def np_array_def transpose_nd_def reshape_def
        rows_def typewriter_plan_def plan_order_def)
next
  case False
  let ?n = "length xi" and ?T = "transpose_nd (np_array (meshgrid xi))"
  let ?P = "prod_list (mesh_shape xi)"
  let ?xss = "map (\<lambda>a. xi ! a) (plan_order ?n)"
  have lp: "length (typewriter_plan ?xss) = ?P"
    by (simp only: typewriter_plan_def length_typewriter prod_in_plan_order)
  have r: "reshape ?T [prod_list (map length xi), ?n] = Inr \<lparr>shape = [?P, ?n], flat = flat ?T\<rparr>"
    by (simp add: reshape_def length_transposed [OF False] prod_list_mesh_shape mult.commute)
  have "map (\<lambda>k. take ?n (drop (k * ?n) (flat ?T))) [0..<?P] =
          map (\<lambda>r. map (\<lambda>c. r ! (?n - 1 - axis_of ?n c)) [0..<?n]) (typewriter_plan ?xss)"
  proof (rule nth_equalityI)
    show "length (map (\<lambda>k. take ?n (drop (k * ?n) (flat ?T))) [0..<?P]) =
            length (map (\<lambda>r. map (\<lambda>c. r ! (?n - 1 - axis_of ?n c)) [0..<?n])
                        (typewriter_plan ?xss))"
      by (simp add: lp)
  next
    fix k
    assume "k < length (map (\<lambda>k. take ?n (drop (k * ?n) (flat ?T))) [0..<?P])"
    then have k: "k < ?P" by simp
    have "map (\<lambda>k. take ?n (drop (k * ?n) (flat ?T))) [0..<?P] ! k =
            take ?n (drop (k * ?n) (flat ?T))"
      using k by simp
    also have "\<dots> = map (\<lambda>c. xi ! c ! (rev (unravel (rev (mesh_shape xi)) k) ! axis_of ?n c))
                        [0..<?n]"
      by (rule code_row [OF False k])
    also have "\<dots> = map (\<lambda>c. (typewriter_plan ?xss ! k) ! (?n - 1 - axis_of ?n c)) [0..<?n]"
      by (rule reordered_row [OF k, symmetric])
    also have "\<dots> = map (\<lambda>r. map (\<lambda>c. r ! (?n - 1 - axis_of ?n c)) [0..<?n])
                            (typewriter_plan ?xss) ! k"
      using k by (simp add: lp)
    finally show "map (\<lambda>k. take ?n (drop (k * ?n) (flat ?T))) [0..<?P] ! k =
            map (\<lambda>r. map (\<lambda>c. r ! (?n - 1 - axis_of ?n c)) [0..<?n]) (typewriter_plan ?xss) ! k" .
  qed
  then show ?thesis
    by (simp add: major_axes_grid_def r rows_def)
qed

lemma plan_order_small:
  "plan_order 1 = [0]" "plan_order 2 = [0, 1]" "plan_order 3 = [2, 0, 1]"
  "plan_order 4 = [3, 2, 0, 1]"
  by (simp_all add: plan_order_def axis_of_def upt_conv_Cons)

lemma major_axes_grid_same_rows:
  "\<exists>plan. major_axes_grid xi (map length xi) (length xi) = Inr plan
     \<and> length plan = length (typewriter_plan xi)
     \<and> set plan = set (typewriter_plan xi)"
proof -
  let ?n = "length xi"
  let ?xss = "map (\<lambda>a. xi ! a) (plan_order ?n)"
  let ?put = "\<lambda>r. map (\<lambda>c. r ! (?n - 1 - axis_of ?n c)) [0..<?n]"
  let ?plan = "map ?put (typewriter_plan ?xss)"
  have len: "length ?plan = length (typewriter_plan xi)"
    by (simp only: length_map typewriter_plan_def length_typewriter prod_in_plan_order
        prod_list_mesh_shape)
  have ord: "?xss ! (?n - 1 - axis_of ?n c) = xi ! c" if "c < ?n" for c
  proof -
    from that have j: "axis_of ?n c < ?n" by (rule axis_of_less)
    then have "?n - Suc (?n - Suc (axis_of ?n c)) = axis_of ?n c" by simp
    with j show ?thesis
      by (simp add: plan_order_def axis_of_involution)
  qed
  have "set ?plan = set (typewriter_plan xi)"
  proof (intro equalityI subsetI)
    fix s
    assume "s \<in> set ?plan"
    then obtain r where r: "r \<in> set (typewriter_plan ?xss)" and s: "s = ?put r"
      by auto
    from r have all: "list_all2 (\<lambda>x ys. x \<in> set ys) r ?xss"
      by (simp add: typewriter_plan_def product_lists_set)
    then have lr: "length r = ?n"
      by (simp add: list_all2_lengthD length_plan_order)
    have "s ! c \<in> set (xi ! c)" if "c < ?n" for c
    proof -
      from that have "?n - 1 - axis_of ?n c < length r" by (simp add: lr)
      with all have "r ! (?n - 1 - axis_of ?n c) \<in> set (?xss ! (?n - 1 - axis_of ?n c))"
        by (rule list_all2_nthD)
      then have "r ! (?n - 1 - axis_of ?n c) \<in> set (xi ! c)"
        by (simp only: ord [OF that])
      with that show ?thesis
        by (simp add: s)
    qed
    moreover have "length s = length xi"
      by (simp add: s)
    ultimately have "list_all2 (\<lambda>x ys. x \<in> set ys) s xi"
      by (intro list_all2_all_nthI) simp_all
    then show "s \<in> set (typewriter_plan xi)"
      by (simp add: typewriter_plan_def product_lists_set)
  next
    fix s
    assume "s \<in> set (typewriter_plan xi)"
    then have all: "list_all2 (\<lambda>x ys. x \<in> set ys) s xi"
      by (simp add: typewriter_plan_def product_lists_set)
    then have ls: "length s = ?n"
      by (rule list_all2_lengthD)
    let ?r = "map (\<lambda>a. s ! a) (plan_order ?n)"
    have "?r ! e \<in> set (?xss ! e)" if "e < ?n" for e
    proof -
      from that have "axis_of ?n (?n - 1 - e) < length s"
        unfolding ls by (intro axis_of_less) simp
      with all have "s ! axis_of ?n (?n - 1 - e) \<in> set (xi ! axis_of ?n (?n - 1 - e))"
        by (rule list_all2_nthD)
      with that show ?thesis
        by (simp add: plan_order_def)
    qed
    then have "list_all2 (\<lambda>x ys. x \<in> set ys) ?r ?xss"
      by (intro list_all2_all_nthI) (simp_all add: length_plan_order)
    then have r: "?r \<in> set (typewriter_plan ?xss)"
      by (simp add: typewriter_plan_def product_lists_set)
    have "?put ?r ! c = s ! c" if "c < ?n" for c
    proof -
      from that have j: "axis_of ?n c < ?n" by (rule axis_of_less)
      then have "?n - Suc (?n - Suc (axis_of ?n c)) = axis_of ?n c" by simp
      with j that show ?thesis
        by (simp add: plan_order_def axis_of_involution)
    qed
    then have "?put ?r = s"
      by (intro nth_equalityI) (simp_all add: ls)
    then have "s = ?put ?r" by (rule sym)
    with r have "s \<in> ?put ` set (typewriter_plan ?xss)"
      by (rule rev_image_eqI)
    then show "s \<in> set ?plan"
      by (simp only: set_map)
  qed
  with len major_axes_grid_general [of xi] show ?thesis
    by blast
qed

text \<open>
  For arguments that cover the major axes, \<open>raster_plan\<close> is that plan of the grids
  \<open>major_axis_steps\<close>. With at most two major axes it is the product with the first
  axis varying slowest; from three axes on, the last axis varies slowest and the
  second fastest.
\<close>

lemma length_linspace: "length (linspace a b n) = n"
  by (simp add: linspace_def)

lemma major_axis_steps_lengths:
  assumes "n_major_axes self \<le> length start" and "n_major_axes self \<le> length stop"
    and "n_major_axes self \<le> length num"
    and "n_major_axes self \<le> length (ac_units (major_axes self))"
  shows "length (major_axis_steps self start stop num) = n_major_axes self"
    and "map length (major_axis_steps self start stop num) = take (n_major_axes self) num"
proof -
  show l: "length (major_axis_steps self start stop num) = n_major_axes self"
    using assms by (simp add: major_axis_steps_def)
  show "map length (major_axis_steps self start stop num) = take (n_major_axes self) num"
  proof (rule nth_equalityI)
    show "length (map length (major_axis_steps self start stop num)) =
            length (take (n_major_axes self) num)"
      using assms l by simp
  next
    fix i
    assume "i < length (map length (major_axis_steps self start stop num))"
    with l have "i < n_major_axes self" by simp
    with assms show "map length (major_axis_steps self start stop num) ! i =
                       take (n_major_axes self) num ! i"
      by (simp add: major_axis_steps_def length_linspace)
  qed
qed

lemma raster_plan_general:
  assumes "n_major_axes self \<le> length start" and "n_major_axes self \<le> length stop"
    and "n_major_axes self \<le> length num"
    and "n_major_axes self \<le> length (ac_units (major_axes self))"
  shows "raster_plan self start stop num =
     Inr (map (\<lambda>r. map (\<lambda>c. r ! (n_major_axes self - 1 - axis_of (n_major_axes self) c))
                      [0..<n_major_axes self])
              (typewriter_plan (map (\<lambda>a. major_axis_steps self start stop num ! a)
                                    (plan_order (n_major_axes self)))))"
  using major_axes_grid_general [of "major_axis_steps self start stop num"]
  by (simp only: raster_plan_def major_axis_steps_lengths [OF assms])

lemma raster_plan_same_rows:
  assumes "n_major_axes self \<le> length start" and "n_major_axes self \<le> length stop"
    and "n_major_axes self \<le> length num"
    and "n_major_axes self \<le> length (ac_units (major_axes self))"
  shows "\<exists>plan. raster_plan self start stop num = Inr plan
     \<and> length plan = length (typewriter_plan (major_axis_steps self start stop num))
     \<and> set plan = set (typewriter_plan (major_axis_steps self start stop num))"
  using major_axes_grid_same_rows [of "major_axis_steps self start stop num"]
  by (simp only: raster_plan_def major_axis_steps_lengths [OF assms])

lemma plan_order_le_2: "n \<le> 2 \<Longrightarrow> plan_order n = [0..<n]"
proof -
  assume "n \<le> 2"
  then have "n = 0 \<or> n = 1 \<or> n = 2" by arith
  then show ?thesis
    by (auto simp: upt_conv_Cons plan_order_def axis_of_def)
qed

lemma position_le_2: "n \<le> 2 \<Longrightarrow> c < n \<Longrightarrow> n - Suc (axis_of n c) = c"
proof -
  assume "n \<le> 2" and "c < n"
  then have "(n = 1 \<and> c = 0) \<or> (n = 2 \<and> c = 0) \<or> (n = 2 \<and> c = 1)" by arith
  then show ?thesis
    by (auto simp: axis_of_def)
qed

lemma major_axes_grid_first_slowest:
  assumes "length xi \<le> 2"
  shows "major_axes_grid xi (map length xi) (length xi) = Inr (typewriter_plan xi)"
proof -
  let ?n = "length xi"
  let ?put = "\<lambda>r. map (\<lambda>c. r ! (?n - 1 - axis_of ?n c)) [0..<?n]"
  have o: "map (\<lambda>a. xi ! a) (plan_order ?n) = xi"
    by (simp only: plan_order_le_2 [OF assms] map_nth)
  have "?put r = r" if "r \<in> set (typewriter_plan xi)" for r
  proof -
    from that have l: "length r = ?n"
      unfolding typewriter_plan_def by (rule in_set_product_lists_length)
    have "?put r = map (\<lambda>c. r ! c) [0..<?n]"
      by (rule map_cong [OF refl]) (simp add: position_le_2 [OF assms])
    also have "\<dots> = r"
      unfolding l [symmetric] by (rule map_nth)
    finally show ?thesis .
  qed
  then have "map ?put (typewriter_plan xi) = typewriter_plan xi"
    by (intro map_idI)
  with major_axes_grid_general [of xi] show ?thesis
    by (simp only: o)
qed

lemma raster_plan_first_slowest:
  assumes "n_major_axes self \<le> 2"
    and "n_major_axes self \<le> length start" and "n_major_axes self \<le> length stop"
    and "n_major_axes self \<le> length num"
    and "n_major_axes self \<le> length (ac_units (major_axes self))"
  shows "raster_plan self start stop num =
           Inr (typewriter_plan (major_axis_steps self start stop num))"
proof -
  have "length (major_axis_steps self start stop num) \<le> 2"
    using assms(1) by (simp only: major_axis_steps_lengths [OF assms(2-5)])
  then show ?thesis
    using major_axes_grid_first_slowest [of "major_axis_steps self start stop num"]
    by (simp only: raster_plan_def major_axis_steps_lengths [OF assms(2-5)])
qed

text \<open>
  C8. With three major axes of two points each, the plan of \<open>_raster\<close> is not in the
  order the claim gives: its second coordinate is \<open>(0, 1, 0)\<close>, where the product
  with the first axis varying slowest has \<open>(0, 0, 1)\<close>. In the plan the third axis
  varies slowest and the second fastest, because \<open>meshgrid\<close> with its default
  indexing swaps the first two dimensions before \<open>transpose\<close> reverses them all.
\<close>

theorem raster_plan_three_major_axes:
  "raster_plan (PerpendicularAC_init stage_xyz stage_z) [0, 0, 0, 0] [1, 1, 1, 1] [2, 2, 2, 3] =
     Inr [[0, 0, 0], [0, 1, 0], [1, 0, 0], [1, 1, 0], [0, 0, 1], [0, 1, 1], [1, 0, 1], [1, 1, 1]]
   \<and> typewriter_plan
       (major_axis_steps (PerpendicularAC_init stage_xyz stage_z) [0, 0, 0, 0] [1, 1, 1, 1]
          [2, 2, 2, 3]) =
     [[0, 0, 0], [0, 0, 1], [0, 1, 0], [0, 1, 1], [1, 0, 0], [1, 0, 1], [1, 1, 0], [1, 1, 1]]"
proof -
  have a: "raster_plan (PerpendicularAC_init stage_xyz stage_z) [0, 0, 0, 0] [1, 1, 1, 1]
             [2, 2, 2, 3] =
     Inr [[0, 0, 0], [0, 1, 0], [1, 0, 0], [1, 1, 0], [0, 0, 1], [0, 1, 1], [1, 0, 1], [1, 1, 1]]"
    by code_simp
  have b: "typewriter_plan
       (major_axis_steps (PerpendicularAC_init stage_xyz stage_z) [0, 0, 0, 0] [1, 1, 1, 1]
          [2, 2, 2, 3]) =
     [[0, 0, 0], [0, 0, 1], [0, 1, 0], [0, 1, 1], [1, 0, 0], [1, 0, 1], [1, 1, 0], [1, 1, 1]]"
    by code_simp
  from a b show ?thesis by (rule conjI)
qed

end
